theory Spec2Isabelle
  imports Complex_Main "HOL-Library.Multiset" "HOL-Library.Product_Lexorder"
    "HOL-Library.List_Lexorder" "HOL-Library.Char_ord"
begin

section \<open>Record linkage: data model\<close>

text \<open>
  The source is \<^verbatim>\<open>src/record_linkage.py\<close>.  A probability tuple (called a
  signature in the specification) is the tuple of similarity categories of a record pair;
  the functions below are polymorphic in its type.

  Numbers.  A Python float is a binary64 value, and every finite binary64 value is a real
  number, so masses and bounds have type \<open>real\<close> and \<^verbatim>\<open><=\<close> is the order of the reals.
  The sum of two floats is rounded.  In \<open>put_labels\<close>, where a label depends on how a sum
  compares with a bound, the addition is a parameter \<open>add\<close> of the model: the source's
  \<^verbatim>\<open>+\<close> is the instance \<open>float_add\<close> defined below, and the exact sum is another instance.
  \<open>compute_probabilities\<close> is written with the exact quotient and sum; what is proved about
  it here (the result for an empty list, and that every stored mass is positive) does not
  rest on exact values.

  The three labels are the string constants \<^verbatim>\<open>'match'\<close>, \<^verbatim>\<open>'unmatch'\<close> and
  \<^verbatim>\<open>'possible match'\<close> of the source.
\<close>

datatype label = Match | Unmatch | Possible_match

text \<open>An entry of the ordered list: (probability tuple, match probability, unmatch
  probability), read in the source as \<^verbatim>\<open>t[0]\<close>, \<^verbatim>\<open>t[1]\<close>, \<^verbatim>\<open>t[2]\<close>.\<close>

type_synonym 's prob_entry = "'s \<times> real \<times> real"

definition sim_of :: "'s prob_entry \<Rightarrow> 's" where
  "sim_of t = fst t"

definition match_prob :: "'s prob_entry \<Rightarrow> real" where
  "match_prob t = fst (snd t)"

definition unmatch_prob :: "'s prob_entry \<Rightarrow> real" where
  "unmatch_prob t = snd (snd t)"

text \<open>\<^verbatim>\<open>d.get(k, default)\<close> on a dictionary.\<close>

definition dict_get :: "('k \<rightharpoonup> 'v) \<Rightarrow> 'k \<Rightarrow> 'v \<Rightarrow> 'v" where
  "dict_get d k dflt = (case d k of None \<Rightarrow> dflt | Some v \<Rightarrow> v)"

section \<open>The addition of binary64 values\<close>

text \<open>
  IEEE 754 addition of two finite binary64 values is their exact sum rounded to the
  nearest binary64 value, a tie going to the value whose last significand bit is even.
  The binary64 values near \<open>x\<close> are the integer multiples of \<open>2^(e - 52)\<close>, where \<open>e\<close> is
  the exponent of \<open>x\<close> (\<open>2^e \<le> |x| < 2^(e + 1)\<close>), not below the least normal exponent
  \<open>-1022\<close>.  Overflow to infinity (a sum of \<open>2^1024\<close> or more) is not modelled; no sum of
  masses and bounds in \<open>[0, 1]\<close> comes near it.
\<close>

definition round_half_even :: "real \<Rightarrow> int" where
  "round_half_even x =
     (let f = \<lfloor>x\<rfloor>; d = x - of_int f
      in if d < 1 / 2 then f else if 1 / 2 < d then f + 1 else if even f then f else f + 1)"

definition binary64_exponent :: "real \<Rightarrow> int" where
  "binary64_exponent x = max \<lfloor>log 2 \<bar>x\<bar>\<rfloor> (- 1022)"

definition binary64_round :: "real \<Rightarrow> real" where
  "binary64_round x =
     (if x = 0 then 0
      else of_int (round_half_even (x / 2 powi (binary64_exponent x - 52)))
             * 2 powi (binary64_exponent x - 52))"

definition float_add :: "real \<Rightarrow> real \<Rightarrow> real" where
  "float_add x y = binary64_round (x + y)"

section \<open>put_labels\<close>

text \<open>
  The loop state is \<open>(u, m, labels)\<close>.  One iteration \<open>i\<close> of the loop body: first the
  entry \<^verbatim>\<open>ordered_probs[-i - 1]\<close> (index \<open>len - i - 1\<close>, always in range for
  \<open>i < len\<close>) is tested against \<^verbatim>\<open>lambda_\<close> (written \<open>lam\<close>) with its match
  probability, then the entry \<^verbatim>\<open>ordered_probs[i]\<close> is tested against \<open>mu\<close> with its
  unmatch probability.  \<open>add\<close> is the source's \<^verbatim>\<open>+\<close>.
\<close>

type_synonym 's label_state = "real \<times> real \<times> ('s \<rightharpoonup> label)"

definition put_labels_body ::
  "(real \<Rightarrow> real \<Rightarrow> real) \<Rightarrow> 's prob_entry list \<Rightarrow> real \<Rightarrow> real \<Rightarrow> nat
     \<Rightarrow> 's label_state \<Rightarrow> 's label_state" where
  "put_labels_body add ordered_probs mu lam i st =
     (case st of (u, m, labels) \<Rightarrow>
        let t = ordered_probs ! (length ordered_probs - i - 1);
            h = ordered_probs ! i;
            m1 = (if add m (match_prob t) \<le> lam then add m (match_prob t) else lam);
            labels1 = (if add m (match_prob t) \<le> lam
                       then (if labels (sim_of t) \<noteq> Some Match
                             then labels(sim_of t \<mapsto> Unmatch) else labels)
                       else labels)
        in if add u (unmatch_prob h) \<le> mu
           then (add u (unmatch_prob h), m1, labels1(sim_of h \<mapsto> Match))
           else (mu, m1, labels1(sim_of h \<mapsto> dict_get labels1 (sim_of h) Possible_match)))"

text \<open>The state after the first \<open>k\<close> iterations of \<^verbatim>\<open>for i in range(len(ordered_probs))\<close>.\<close>

primrec put_labels_loop ::
  "(real \<Rightarrow> real \<Rightarrow> real) \<Rightarrow> 's prob_entry list \<Rightarrow> real \<Rightarrow> real \<Rightarrow> nat \<Rightarrow> 's label_state" where
  "put_labels_loop add ordered_probs mu lam 0 = (0, 0, Map.empty)"
| "put_labels_loop add ordered_probs mu lam (Suc k) =
     put_labels_body add ordered_probs mu lam k (put_labels_loop add ordered_probs mu lam k)"

definition put_labels ::
  "(real \<Rightarrow> real \<Rightarrow> real) \<Rightarrow> 's prob_entry list \<Rightarrow> real \<Rightarrow> real \<Rightarrow> ('s \<rightharpoonup> label)" where
  "put_labels add ordered_probs mu lam =
     snd (snd (put_labels_loop add ordered_probs mu lam (length ordered_probs)))"

text \<open>
  The two tests of iteration \<open>i\<close>, read off the loop state that iteration starts from:
  \<open>match_test\<close> is \<^verbatim>\<open>u + ordered_probs[i][2] <= mu\<close> (the sweep from the head), and
  \<open>unmatch_test\<close> is \<^verbatim>\<open>m + ordered_probs[-i - 1][1] <= lambda_\<close> (the sweep from the
  tail).
\<close>

definition match_test ::
  "(real \<Rightarrow> real \<Rightarrow> real) \<Rightarrow> 's prob_entry list \<Rightarrow> real \<Rightarrow> real \<Rightarrow> nat \<Rightarrow> bool" where
  "match_test add ordered_probs mu lam i =
     (add (fst (put_labels_loop add ordered_probs mu lam i)) (unmatch_prob (ordered_probs ! i))
        \<le> mu)"

definition unmatch_test ::
  "(real \<Rightarrow> real \<Rightarrow> real) \<Rightarrow> 's prob_entry list \<Rightarrow> real \<Rightarrow> real \<Rightarrow> nat \<Rightarrow> bool" where
  "unmatch_test add ordered_probs mu lam i =
     (add (fst (snd (put_labels_loop add ordered_probs mu lam i)))
          (match_prob (ordered_probs ! (length ordered_probs - i - 1))) \<le> lam)"

text \<open>The running sum of either sweep: add the mass while the bound holds, else clamp.\<close>

definition clamp_add :: "(real \<Rightarrow> real \<Rightarrow> real) \<Rightarrow> real \<Rightarrow> real \<Rightarrow> real \<Rightarrow> real" where
  "clamp_add add bound acc p = (if add acc p \<le> bound then add acc p else bound)"

text \<open>
  The cumulative sums as the code accumulates them, in the order of the sweep and with the
  code's addition: \<open>head_sum add ordered_probs k\<close> is the sum of the unmatch probabilities of
  the first \<open>k\<close> entries, \<open>tail_sum add ordered_probs k\<close> the sum of the match probabilities
  of the last \<open>k\<close> entries, taken from the end.  \<open>head_within\<close> and \<open>tail_within\<close> say
  that the cumulative sum has stayed within the bound over the first \<open>k\<close> entries of the
  sweep.
\<close>

definition head_sum :: "(real \<Rightarrow> real \<Rightarrow> real) \<Rightarrow> 's prob_entry list \<Rightarrow> nat \<Rightarrow> real" where
  "head_sum add ordered_probs k = foldl add 0 (map unmatch_prob (take k ordered_probs))"

definition tail_sum :: "(real \<Rightarrow> real \<Rightarrow> real) \<Rightarrow> 's prob_entry list \<Rightarrow> nat \<Rightarrow> real" where
  "tail_sum add ordered_probs k = foldl add 0 (map match_prob (take k (rev ordered_probs)))"

definition head_within ::
  "(real \<Rightarrow> real \<Rightarrow> real) \<Rightarrow> 's prob_entry list \<Rightarrow> real \<Rightarrow> nat \<Rightarrow> bool" where
  "head_within add ordered_probs mu k =
     list_all (\<lambda>j. head_sum add ordered_probs j \<le> mu) [0..<Suc k]"

definition tail_within ::
  "(real \<Rightarrow> real \<Rightarrow> real) \<Rightarrow> 's prob_entry list \<Rightarrow> real \<Rightarrow> nat \<Rightarrow> bool" where
  "tail_within add ordered_probs lam k =
     list_all (\<lambda>j. tail_sum add ordered_probs j \<le> lam) [0..<Suc k]"



text \<open>The masses of a list of entries are probabilities, so none is negative.\<close>

definition nonneg_masses :: "'s prob_entry list \<Rightarrow> bool" where
  "nonneg_masses ordered_probs =
     list_all (\<lambda>t. 0 \<le> match_prob t \<and> 0 \<le> unmatch_prob t) ordered_probs"

text \<open>
  Adding a mass of the list to 0 gives that mass.  This holds for the exact sum, and for
  \<open>float_add\<close> whenever the masses are binary64 values.
\<close>

definition zero_exact :: "(real \<Rightarrow> real \<Rightarrow> real) \<Rightarrow> 's prob_entry list \<Rightarrow> bool" where
  "zero_exact add ordered_probs =
     list_all (\<lambda>t. add 0 (match_prob t) = match_prob t \<and> add 0 (unmatch_prob t) = unmatch_prob t)
       ordered_probs"

text \<open>The number of probability tuples that a label mapping gives the label \<open>l\<close>.\<close>

definition count_label :: "('s \<rightharpoonup> label) \<Rightarrow> label \<Rightarrow> nat" where
  "count_label labels l = card {s. labels s = Some l}"


section \<open>gen_prob_tuple\<close>

text \<open>
  A data frame indexed by key is a map from keys to rows; a row is the list of its field
  values, all text.  \<^verbatim>\<open>zagat.loc[z_i, :]\<close> raises KeyError for an absent key, and
  \<^verbatim>\<open>f[i]\<close> raises IndexError when \<open>i\<close> is not below \<open>len(f)\<close>.

  \<^verbatim>\<open>jellyfish.jaro_winkler_similarity\<close> is an external library and
  \<^verbatim>\<open>util.get_jw_category\<close> is not among the sources: both are parameters of the model.
\<close>

datatype error = KeyError | IndexError

function gen_prob_tuple_loop ::
  "(string \<Rightarrow> string \<Rightarrow> 'r) \<Rightarrow> ('r \<Rightarrow> 'c) \<Rightarrow> string list \<Rightarrow> string list \<Rightarrow> nat \<Rightarrow> 'c list
     \<Rightarrow> error + 'c list" where
  "gen_prob_tuple_loop jaro_winkler_similarity get_jw_category z f i tpl =
     (if i < length z
      then (if i < length f
            then gen_prob_tuple_loop jaro_winkler_similarity get_jw_category z f (Suc i)
                   (tpl @ [get_jw_category (jaro_winkler_similarity (z ! i) (f ! i))])
            else Inl IndexError)
      else Inr tpl)"
  by pat_completeness auto
termination
  by (relation "measure (\<lambda>(jw, cat, z, f, i, tpl). length z - i)") auto

declare gen_prob_tuple_loop.simps [simp del]

definition gen_prob_tuple ::
  "(string \<Rightarrow> string \<Rightarrow> 'r) \<Rightarrow> ('r \<Rightarrow> 'c) \<Rightarrow> 'ka \<Rightarrow> 'kb \<Rightarrow> ('ka \<rightharpoonup> string list)
     \<Rightarrow> ('kb \<rightharpoonup> string list) \<Rightarrow> error + 'c list" where
  "gen_prob_tuple jaro_winkler_similarity get_jw_category z_i f_i zagat fodors =
     (case zagat z_i of
        None \<Rightarrow> Inl KeyError
      | Some z \<Rightarrow>
          (case fodors f_i of
             None \<Rightarrow> Inl KeyError
           | Some f \<Rightarrow> gen_prob_tuple_loop jaro_winkler_similarity get_jw_category z f 0 []))"

section \<open>compute_probabilities\<close>

text \<open>
  \<open>df\<close> is the list of its rows \<open>(z_i, f_i)\<close>; \<open>n\<close> is \<^verbatim>\<open>len(df)\<close>.  The division
  \<^verbatim>\<open>1 / len(df)\<close> stands inside the loop body, so it is evaluated only when \<open>df\<close> has a
  row.  An exception of \<open>gen_prob_tuple\<close> ends the loop.
\<close>

fun compute_probabilities_loop ::
  "(string \<Rightarrow> string \<Rightarrow> 'r) \<Rightarrow> ('r \<Rightarrow> 'c) \<Rightarrow> nat \<Rightarrow> ('ka \<times> 'kb) list \<Rightarrow> ('ka \<rightharpoonup> string list)
     \<Rightarrow> ('kb \<rightharpoonup> string list) \<Rightarrow> ('c list \<rightharpoonup> real) \<Rightarrow> error + ('c list \<rightharpoonup> real)" where
  "compute_probabilities_loop jw cat n [] zagat fodors probs = Inr probs"
| "compute_probabilities_loop jw cat n ((z_i, f_i) # rest) zagat fodors probs =
     (case gen_prob_tuple jw cat z_i f_i zagat fodors of
        Inl e \<Rightarrow> Inl e
      | Inr tpl \<Rightarrow>
          compute_probabilities_loop jw cat n rest zagat fodors
            (probs(tpl \<mapsto> dict_get probs tpl 0 + 1 / real n)))"

definition compute_probabilities ::
  "(string \<Rightarrow> string \<Rightarrow> 'r) \<Rightarrow> ('r \<Rightarrow> 'c) \<Rightarrow> ('ka \<times> 'kb) list \<Rightarrow> ('ka \<rightharpoonup> string list)
     \<Rightarrow> ('kb \<rightharpoonup> string list) \<Rightarrow> error + ('c list \<rightharpoonup> real)" where
  "compute_probabilities jw cat df zagat fodors =
     compute_probabilities_loop jw cat (length df) df zagat fodors Map.empty"

section \<open>ordered_probabilities\<close>

text \<open>
  \<^verbatim>\<open>list(set(mp.keys()) | set(up.keys()))\<close> lists the union of the keys once each, in
  an order the language leaves to the implementation.  The model takes that list as the
  argument \<open>sim_tpls\<close>; \<open>key_listing\<close> says that it is such a list.
  \<^verbatim>\<open>util.sort_prob_tuples\<close> is not among the sources and is a parameter.
\<close>

definition key_listing :: "'s list \<Rightarrow> ('s \<rightharpoonup> real) \<Rightarrow> ('s \<rightharpoonup> real) \<Rightarrow> bool" where
  "key_listing sim_tpls mp up = (distinct sim_tpls \<and> set sim_tpls = dom mp \<union> dom up)"

definition prob_tuples :: "'s list \<Rightarrow> ('s \<rightharpoonup> real) \<Rightarrow> ('s \<rightharpoonup> real) \<Rightarrow> 's prob_entry list" where
  "prob_tuples sim_tpls mp up = map (\<lambda>sim. (sim, dict_get mp sim 0, dict_get up sim 0)) sim_tpls"

definition ordered_probabilities ::
  "('s prob_entry list \<Rightarrow> 's prob_entry list) \<Rightarrow> 's list \<Rightarrow> ('s \<rightharpoonup> real) \<Rightarrow> ('s \<rightharpoonup> real)
     \<Rightarrow> 's prob_entry list" where
  "ordered_probabilities sort_prob_tuples sim_tpls mp up =
     sort_prob_tuples (prob_tuples sim_tpls mp up)"

text \<open>
  Modelled from the spec: \<^verbatim>\<open>util.sort_prob_tuples\<close>, which is not among the sources.
  The specification (4.4) orders by descending ratio of match mass to unmatch mass where
  the unmatch mass is positive, ranks an entry with unmatch mass 0 and positive match mass
  at the top, and asks for a deterministic tie-break, for instance by signature value.
  The position of an entry with both masses 0 is left open there; this model puts it last.
  Ties are broken by the signature.
\<close>

definition rank_key :: "('s::linorder) prob_entry \<Rightarrow> nat \<times> real \<times> 's" where
  "rank_key t =
     (if 0 < unmatch_prob t then (1, - (match_prob t / unmatch_prob t), sim_of t)
      else if 0 < match_prob t then (0, 0, sim_of t)
      else (2, 0, sim_of t))"

definition sort_prob_tuples :: "('s::linorder) prob_entry list \<Rightarrow> 's prob_entry list" where
  "sort_prob_tuples prob_tuples_list = sort_key rank_key prob_tuples_list"

text \<open>\<open>precedes xs a b\<close>: some occurrence of \<open>a\<close> in \<open>xs\<close> stands before one of \<open>b\<close>.\<close>

fun precedes :: "'a list \<Rightarrow> 'a \<Rightarrow> 'a \<Rightarrow> bool" where
  "precedes [] a b = False"
| "precedes (x # xs) a b = ((x = a \<and> b \<in> set xs) \<or> precedes xs a b)"

section \<open>Concrete inputs\<close>

text \<open>
  The scenario of the specification: two probability tuples, one seen only among the known
  matches and one only among the known non-matches.
\<close>

definition scenario :: "string list prob_entry list" where
  "scenario = [([''high'', ''high''], 1, 0), ([''low'', ''high''], 0, 1)]"

definition mixed :: "string list prob_entry list" where
  "mixed = [([''high'', ''low''], 1 / 2, 1 / 2)]"

text \<open>
  A similarity and a category function to run the model on concrete records (exact
  equality scores 1, anything else 0), and two small data frames whose rows have one and
  two fields.
\<close>

definition sample_similarity :: "string \<Rightarrow> string \<Rightarrow> real" where
  "sample_similarity a b = (if a = b then 1 else 0)"

definition sample_category :: "real \<Rightarrow> string" where
  "sample_category r = (if 1 \<le> r then ''high'' else ''low'')"

definition narrow_frame :: "nat \<rightharpoonup> string list" where
  "narrow_frame = [1 \<mapsto> [''cafe'']]"

definition wide_frame :: "nat \<rightharpoonup> string list" where
  "wide_frame = [1 \<mapsto> [''cafe'', ''chicago''], 2 \<mapsto> [''diner'', ''chicago'']]"



text \<open>
  A list on which rounding decides a label.  The second entry has the unmatch mass
  \<open>2^-54\<close>, half the distance between neighbouring binary64 values in \<open>[1/2, 1)\<close>.  The two
  bounds are neighbouring binary64 values: \<open>1/2\<close> (last significand bit even), which in Python
  is \<^verbatim>\<open>0.5\<close>, and \<open>1/2 + 2^-53\<close> (last bit odd), which is \<^verbatim>\<open>0.5000000000000001\<close>.
\<close>

definition tiny_mass :: real where
  "tiny_mass = 1 / 2 ^ 54"




section \<open>Rounding at concrete values\<close>

lemma binary64_exponent_eq:
  assumes "2 powi e \<le> \<bar>x\<bar>" and "\<bar>x\<bar> < 2 powi (e + 1)" and "- 1022 \<le> e"
  shows "binary64_exponent x = e"
proof -
  have "(0::real) < 2 powi e" by simp
  with assms(1) have pos: "0 < \<bar>x\<bar>" by linarith
  have 1: "(2::real) powr real_of_int e = 2 powi e"
    by (rule powr_real_of_int') simp_all
  have 2: "(2::real) powr real_of_int (e + 1) = 2 powi (e + 1)"
    by (rule powr_real_of_int') simp_all
  have "2 powr real_of_int e \<le> \<bar>x\<bar> \<and> \<bar>x\<bar> < 2 powr real_of_int (e + 1)"
    unfolding 1 2 using assms(1,2) by (rule conjI)
  moreover have "(1::real) < 2" by simp
  ultimately have "\<lfloor>log 2 \<bar>x\<bar>\<rfloor> = e"
    using floor_log_eq_powr_iff [OF pos, of 2 e] by blast
  with assms(3) show ?thesis by (simp add: binary64_exponent_def)
qed

lemma binary64_round_eq:
  assumes "2 powi e \<le> \<bar>x\<bar>" and "\<bar>x\<bar> < 2 powi (e + 1)" and "- 1022 \<le> e"
  shows "binary64_round x = of_int (round_half_even (x / 2 powi (e - 52))) * 2 powi (e - 52)"
proof -
  have "(0::real) < 2 powi e" by simp
  with assms(1) have "0 < \<bar>x\<bar>" by linarith
  then have "x \<noteq> 0" by simp
  then show ?thesis
    by (simp add: binary64_round_def binary64_exponent_eq [OF assms])
qed

text \<open>The values 0, 1, 1/2 and 3/4 are binary64 values: rounding leaves them as they are.\<close>

lemma binary64_round_0: "binary64_round 0 = 0"
  by (simp add: binary64_round_def)

lemma binary64_round_1: "binary64_round 1 = 1"
  by (subst binary64_round_eq [of 0]) (simp_all add: round_half_even_def power_int_minus)

lemma binary64_round_half: "binary64_round (1 / 2) = 1 / 2"
  by (subst binary64_round_eq [of "- 1"]) (simp_all add: round_half_even_def power_int_minus)

lemma binary64_round_three_quarters: "binary64_round (3 / 4) = 3 / 4"
  by (subst binary64_round_eq [of "- 1"]) (simp_all add: round_half_even_def power_int_minus)

lemma binary64_round_tiny: "binary64_round tiny_mass = tiny_mass"
  unfolding tiny_mass_def
  by (subst binary64_round_eq [of "- 54"]) (simp_all add: round_half_even_def power_int_minus)

lemma float_add_0:
  "float_add 0 0 = 0" "float_add 0 1 = 1" "float_add 0 (1 / 2) = 1 / 2"
  "float_add 0 (3 / 4) = 3 / 4" "float_add 0 tiny_mass = tiny_mass"
  by (simp_all add: float_add_def binary64_round_0 binary64_round_1 binary64_round_half
      binary64_round_three_quarters binary64_round_tiny)




section \<open>The loop of put_labels\<close>

subsection \<open>The two running sums\<close>

lemma loop_fst_step:
  "fst (put_labels_loop add ops mu lam (Suc k)) =
     clamp_add add mu (fst (put_labels_loop add ops mu lam k)) (unmatch_prob (ops ! k))"
proof -
  obtain u m labels where st: "put_labels_loop add ops mu lam k = (u, m, labels)"
    by (cases "put_labels_loop add ops mu lam k") auto
  show ?thesis by (simp add: st put_labels_body_def clamp_add_def Let_def)
qed

lemma loop_snd_step:
  "fst (snd (put_labels_loop add ops mu lam (Suc k))) =
     clamp_add add lam (fst (snd (put_labels_loop add ops mu lam k)))
       (match_prob (ops ! (length ops - k - 1)))"
proof -
  obtain u m labels where st: "put_labels_loop add ops mu lam k = (u, m, labels)"
    by (cases "put_labels_loop add ops mu lam k") auto
  show ?thesis by (simp add: st put_labels_body_def clamp_add_def Let_def)
qed

lemma loop_u_foldl:
  "k \<le> length ops \<Longrightarrow>
   fst (put_labels_loop add ops mu lam k) = foldl (clamp_add add mu) 0 (map unmatch_prob (take k ops))"
proof (induction k)
  case 0
  show ?case by simp
next
  case (Suc k)
  then have "k < length ops" by simp
  then have "take (Suc k) ops = take k ops @ [ops ! k]"
    by (simp add: take_Suc_conv_app_nth)
  with Suc show ?case by (simp add: loop_fst_step del: put_labels_loop.simps)
qed

lemma loop_m_foldl:
  "k \<le> length ops \<Longrightarrow>
   fst (snd (put_labels_loop add ops mu lam k)) =
     foldl (clamp_add add lam) 0 (map match_prob (take k (rev ops)))"
proof (induction k)
  case 0
  show ?case by simp
next
  case (Suc k)
  then have k: "k < length ops" by simp
  then have "take (Suc k) (rev ops) = take k (rev ops) @ [rev ops ! k]"
    by (simp add: take_Suc_conv_app_nth)
  moreover have "rev ops ! k = ops ! (length ops - k - 1)"
    using k by (simp add: rev_nth)
  ultimately show ?case using Suc by (simp add: loop_snd_step del: put_labels_loop.simps)
qed


subsection \<open>The labels after each iteration\<close>

lemma loop_labels_step:
  "snd (snd (put_labels_loop add ops mu lam (Suc k))) s =
    (let labels = snd (snd (put_labels_loop add ops mu lam k));
         t = sim_of (ops ! (length ops - k - 1));
         h = sim_of (ops ! k);
         l1 = (if unmatch_test add ops mu lam k \<and> labels t \<noteq> Some Match then labels(t \<mapsto> Unmatch) else labels)
     in if s = h then (if match_test add ops mu lam k then Some Match
                       else Some (dict_get l1 h Possible_match))
        else l1 s)"
proof -
  obtain u m labels where st: "put_labels_loop add ops mu lam k = (u, m, labels)"
    by (cases "put_labels_loop add ops mu lam k") auto
  show ?thesis
    by (simp add: st put_labels_body_def match_test_def unmatch_test_def Let_def)
qed


lemma loop_labels:
  "snd (snd (put_labels_loop add ops mu lam k)) s =
     (if \<exists>i<k. sim_of (ops ! i) = s \<and> match_test add ops mu lam i then Some Match
      else if \<exists>i<k. sim_of (ops ! (length ops - i - 1)) = s \<and> unmatch_test add ops mu lam i
           then Some Unmatch
      else if \<exists>i<k. sim_of (ops ! i) = s then Some Possible_match
      else None)"
proof (induction k arbitrary: s)
  case 0
  show ?case by simp
next
  case (Suc k)
  define M where "M = (\<lambda>j x. \<exists>i<j. sim_of (ops ! i) = x \<and> match_test add ops mu lam i)"
  define U where "U = (\<lambda>j x. \<exists>i<j. sim_of (ops ! (length ops - i - 1)) = x
                                  \<and> unmatch_test add ops mu lam i)"
  define P where "P = (\<lambda>j x. \<exists>i<j. sim_of (ops ! i) = x)"
  define L where "L = snd (snd (put_labels_loop add ops mu lam k))"
  define t where "t = sim_of (ops ! (length ops - k - 1))"
  define h where "h = sim_of (ops ! k)"
  define mt where "mt = match_test add ops mu lam k"
  define ut where "ut = unmatch_test add ops mu lam k"
  have IH: "L x = (if M k x then Some Match else if U k x then Some Unmatch
                   else if P k x then Some Possible_match else None)" for x
    unfolding L_def M_def U_def P_def by (rule Suc.IH)
  have MS: "M (Suc k) x = (M k x \<or> (h = x \<and> mt))" for x
    unfolding M_def h_def mt_def by (auto simp: less_Suc_eq)
  have US: "U (Suc k) x = (U k x \<or> (t = x \<and> ut))" for x
    unfolding U_def t_def ut_def by (auto simp: less_Suc_eq)
  have PS: "P (Suc k) x = (P k x \<or> h = x)" for x
    unfolding P_def h_def by (auto simp: less_Suc_eq)
  have step: "snd (snd (put_labels_loop add ops mu lam (Suc k))) s =
      (let l1 = (if ut \<and> L t \<noteq> Some Match then L(t \<mapsto> Unmatch) else L)
       in if s = h then (if mt then Some Match else Some (dict_get l1 h Possible_match))
          else l1 s)"
    unfolding L_def t_def h_def mt_def ut_def using loop_labels_step [of add ops mu lam k s]
    by (simp add: Let_def)
  have "snd (snd (put_labels_loop add ops mu lam (Suc k))) s =
      (if M (Suc k) s then Some Match else if U (Suc k) s then Some Unmatch
       else if P (Suc k) s then Some Possible_match else None)"
    unfolding step MS US PS Let_def
    by (auto simp: IH dict_get_def)
  then show ?case unfolding M_def U_def P_def .
qed

subsection \<open>The returned mapping\<close>

lemma put_labels_eq:
  "put_labels add ops mu lam s =
     (if \<exists>i<length ops. sim_of (ops ! i) = s \<and> match_test add ops mu lam i then Some Match
      else if \<exists>i<length ops. sim_of (ops ! (length ops - i - 1)) = s \<and> unmatch_test add ops mu lam i
           then Some Unmatch
      else if \<exists>i<length ops. sim_of (ops ! i) = s then Some Possible_match
      else None)"
  unfolding put_labels_def by (rule loop_labels)

lemma label_chain:
  assumes "x = (if A then Some Match else if B then Some Unmatch
                else if C then Some Possible_match else None)"
  shows "(x = Some Match) = A"
    and "(x = Some Unmatch) = (B \<and> \<not> A)"
    and "(x = Some Possible_match) = (C \<and> \<not> B \<and> \<not> A)"
    and "(x = None) = (\<not> A \<and> \<not> B \<and> \<not> C)"
  using assms by (auto split: if_splits)

lemma put_labels_Match_iff:
  "(put_labels add ops mu lam s = Some Match) =
     (\<exists>i<length ops. sim_of (ops ! i) = s \<and> match_test add ops mu lam i)"
  by (rule label_chain(1) [OF put_labels_eq])

lemma put_labels_Unmatch_iff:
  "(put_labels add ops mu lam s = Some Unmatch) =
     ((\<exists>i<length ops. sim_of (ops ! (length ops - i - 1)) = s \<and> unmatch_test add ops mu lam i)
      \<and> \<not> (\<exists>i<length ops. sim_of (ops ! i) = s \<and> match_test add ops mu lam i))"
  by (rule label_chain(2) [OF put_labels_eq])

lemma put_labels_Possible_iff:
  "(put_labels add ops mu lam s = Some Possible_match) =
     ((\<exists>i<length ops. sim_of (ops ! i) = s)
      \<and> \<not> (\<exists>i<length ops. sim_of (ops ! (length ops - i - 1)) = s \<and> unmatch_test add ops mu lam i)
      \<and> \<not> (\<exists>i<length ops. sim_of (ops ! i) = s \<and> match_test add ops mu lam i))"
  by (rule label_chain(3) [OF put_labels_eq])

lemma put_labels_None_iff:
  "(put_labels add ops mu lam s = None) =
     (\<not> (\<exists>i<length ops. sim_of (ops ! i) = s \<and> match_test add ops mu lam i)
      \<and> \<not> (\<exists>i<length ops. sim_of (ops ! (length ops - i - 1)) = s \<and> unmatch_test add ops mu lam i)
      \<and> \<not> (\<exists>i<length ops. sim_of (ops ! i) = s))"
  by (rule label_chain(4) [OF put_labels_eq])



subsection \<open>Unfolding the loop on a concrete list\<close>

lemmas eval_defs = put_labels_def put_labels_body_def match_test_def unmatch_test_def
  sim_of_def match_prob_def unmatch_prob_def dict_get_def Let_def


section \<open>Claims about put_labels\<close>

text \<open>
  C4.  No probability tuple is labelled both \<open>match\<close> and \<open>unmatch\<close>.  Whenever the test of
  the sweep from the head holds at an occurrence of a tuple and the test of the sweep from
  the tail holds at an occurrence of the same tuple, the returned label of the tuple is
  \<open>match\<close>.  A tuple whose returned label is \<open>possible match\<close> passed neither test at any of
  its occurrences.  This holds for every list and all bounds.
\<close>

theorem put_labels_precedence:
  "(\<forall>i j. i < length ops \<and> j < length ops
          \<and> match_test add ops mu lam i \<and> unmatch_test add ops mu lam j
          \<and> sim_of (ops ! i) = sim_of (ops ! (length ops - j - 1))
        \<longrightarrow> put_labels add ops mu lam (sim_of (ops ! i)) = Some Match)
   \<and> (\<forall>s. put_labels add ops mu lam s = Some Possible_match
        \<longrightarrow> (\<forall>i. i < length ops \<longrightarrow>
               \<not> (sim_of (ops ! i) = s \<and> match_test add ops mu lam i)
             \<and> \<not> (sim_of (ops ! (length ops - i - 1)) = s \<and> unmatch_test add ops mu lam i)))
   \<and> (\<forall>s. \<not> (put_labels add ops mu lam s = Some Match \<and> put_labels add ops mu lam s = Some Unmatch))"
proof (intro conjI allI impI)
  fix i j
  assume "i < length ops \<and> j < length ops
          \<and> match_test add ops mu lam i \<and> unmatch_test add ops mu lam j
          \<and> sim_of (ops ! i) = sim_of (ops ! (length ops - j - 1))"
  then show "put_labels add ops mu lam (sim_of (ops ! i)) = Some Match"
    unfolding put_labels_Match_iff by blast
next
  fix s i
  assume "put_labels add ops mu lam s = Some Possible_match" and "i < length ops"
  then show "\<not> (sim_of (ops ! i) = s \<and> match_test add ops mu lam i)"
    and "\<not> (sim_of (ops ! (length ops - i - 1)) = s \<and> unmatch_test add ops mu lam i)"
    unfolding put_labels_Possible_iff by blast+
next
  fix s
  show "\<not> (put_labels add ops mu lam s = Some Match \<and> put_labels add ops mu lam s = Some Unmatch)"
    by simp
qed

lemma scenario_tests:
  "match_test float_add scenario 1 1 0" "unmatch_test float_add scenario 1 1 (Suc 0)"
  by (simp_all add: scenario_def eval_defs float_add_0)

lemma mixed_tests:
  "put_labels float_add mixed 0 0 [''high'', ''low''] = Some Possible_match"
  by (simp_all add: mixed_def eval_defs float_add_0)

theorem put_labels_precedence_witness:
  "0 < length scenario \<and> Suc 0 < length scenario
   \<and> match_test float_add scenario 1 1 0 \<and> unmatch_test float_add scenario 1 1 (Suc 0)
   \<and> sim_of (scenario ! 0) = sim_of (scenario ! (length scenario - Suc 0 - 1))
   \<and> put_labels float_add scenario 1 1 (sim_of (scenario ! 0)) = Some Match
   \<and> put_labels float_add mixed 0 0 [''high'', ''low''] = Some Possible_match
   \<and> 0 < length mixed
   \<and> \<not> (sim_of (mixed ! 0) = [''high'', ''low''] \<and> match_test float_add mixed 0 0 0)
   \<and> \<not> (sim_of (mixed ! (length mixed - 0 - 1)) = [''high'', ''low'']
         \<and> unmatch_test float_add mixed 0 0 0)"
proof -
  have a: "0 < length scenario \<and> Suc 0 < length scenario
     \<and> match_test float_add scenario 1 1 0 \<and> unmatch_test float_add scenario 1 1 (Suc 0)
     \<and> sim_of (scenario ! 0) = sim_of (scenario ! (length scenario - Suc 0 - 1))"
    using scenario_tests by (simp add: scenario_def)
  have b: "put_labels float_add mixed 0 0 [''high'', ''low''] = Some Possible_match"
    by (rule mixed_tests)
  have c: "0 < length mixed" by (simp add: mixed_def)
  have p1: "\<forall>i j. i < length scenario \<and> j < length scenario
          \<and> match_test float_add scenario 1 1 i \<and> unmatch_test float_add scenario 1 1 j
          \<and> sim_of (scenario ! i) = sim_of (scenario ! (length scenario - j - 1))
        \<longrightarrow> put_labels float_add scenario 1 1 (sim_of (scenario ! i)) = Some Match"
    using put_labels_precedence [where add = float_add and ops = scenario and mu = 1 and lam = 1] by (rule conjunct1)
  have 1: "put_labels float_add scenario 1 1 (sim_of (scenario ! 0)) = Some Match"
    using p1 [rule_format, of 0 "Suc 0"] a by simp
  have p2: "\<forall>s. put_labels float_add mixed 0 0 s = Some Possible_match
        \<longrightarrow> (\<forall>i. i < length mixed \<longrightarrow>
               \<not> (sim_of (mixed ! i) = s \<and> match_test float_add mixed 0 0 i)
             \<and> \<not> (sim_of (mixed ! (length mixed - i - 1)) = s
                    \<and> unmatch_test float_add mixed 0 0 i))"
    using put_labels_precedence [where add = float_add and ops = mixed and mu = 0 and lam = 0] by (elim conjE)
  have 2: "\<not> (sim_of (mixed ! 0) = [''high'', ''low''] \<and> match_test float_add mixed 0 0 0)
     \<and> \<not> (sim_of (mixed ! (length mixed - 0 - 1)) = [''high'', ''low'']
         \<and> unmatch_test float_add mixed 0 0 0)"
    using p2 [rule_format, OF b c] .
  from a b c 1 2 show ?thesis by (intro conjI) (elim conjE, assumption)+
qed

subsection \<open>While the cumulative sum stays within the bound\<close>

lemma head_within_Suc:
  "head_within add ops mu (Suc k) = (head_within add ops mu k \<and> head_sum add ops (Suc k) \<le> mu)"
  by (simp add: head_within_def)

lemma tail_within_Suc:
  "tail_within add ops lam (Suc k) = (tail_within add ops lam k \<and> tail_sum add ops (Suc k) \<le> lam)"
  by (simp add: tail_within_def)

lemma head_sum_Suc:
  "k < length ops \<Longrightarrow>
   head_sum add ops (Suc k) = add (head_sum add ops k) (unmatch_prob (ops ! k))"
  by (simp add: head_sum_def take_Suc_conv_app_nth)

lemma tail_sum_Suc:
  "k < length ops \<Longrightarrow>
   tail_sum add ops (Suc k) = add (tail_sum add ops k) (match_prob (ops ! (length ops - k - 1)))"
  by (simp add: tail_sum_def take_Suc_conv_app_nth rev_nth)

lemma head_tracker:
  "k \<le> length ops \<Longrightarrow> head_within add ops mu k \<Longrightarrow>
   fst (put_labels_loop add ops mu lam k) = head_sum add ops k"
proof (induction k)
  case 0
  show ?case by (simp add: head_sum_def)
next
  case (Suc k)
  from Suc.prems have k: "k < length ops" and w: "head_within add ops mu k"
    and s: "head_sum add ops (Suc k) \<le> mu"
    by (simp_all add: head_within_Suc)
  from Suc.IH k w have "fst (put_labels_loop add ops mu lam k) = head_sum add ops k" by simp
  with s show ?case
    unfolding loop_fst_step by (simp add: clamp_add_def head_sum_Suc [OF k])
qed

lemma tail_tracker:
  "k \<le> length ops \<Longrightarrow> tail_within add ops lam k \<Longrightarrow>
   fst (snd (put_labels_loop add ops mu lam k)) = tail_sum add ops k"
proof (induction k)
  case 0
  show ?case by (simp add: tail_sum_def)
next
  case (Suc k)
  from Suc.prems have k: "k < length ops" and w: "tail_within add ops lam k"
    and s: "tail_sum add ops (Suc k) \<le> lam"
    by (simp_all add: tail_within_Suc)
  from Suc.IH k w have "fst (snd (put_labels_loop add ops mu lam k)) = tail_sum add ops k"
    by simp
  with s show ?case
    unfolding loop_snd_step by (simp add: clamp_add_def tail_sum_Suc [OF k])
qed

lemma match_test_within:
  assumes "k < length ops" and "head_within add ops mu k"
  shows "match_test add ops mu lam k = (head_sum add ops (Suc k) \<le> mu)"
  using assms by (simp add: match_test_def head_tracker head_sum_Suc)

lemma unmatch_test_within:
  assumes "k < length ops" and "tail_within add ops lam k"
  shows "unmatch_test add ops mu lam k = (tail_sum add ops (Suc k) \<le> lam)"
  using assms by (simp add: unmatch_test_def tail_tracker tail_sum_Suc)

lemma distinct_sim_index:
  assumes "distinct (map sim_of ops)" "i < length ops" "k < length ops"
  shows "(sim_of (ops ! i) = sim_of (ops ! k)) = (i = k)"
  using assms nth_eq_iff_index_eq [of "map sim_of ops" i k] by simp

lemma distinct_match_ex:
  assumes d: "distinct (map sim_of ops)" and k: "k < length ops"
  shows "(\<exists>i<length ops. sim_of (ops ! i) = sim_of (ops ! k) \<and> match_test add ops mu lam i)
         = match_test add ops mu lam k"
  using distinct_sim_index [OF d _ k] k by auto

lemma distinct_unmatch_ex:
  assumes d: "distinct (map sim_of ops)" and k: "k < length ops"
  shows "(\<exists>i<length ops. sim_of (ops ! (length ops - i - 1)) = sim_of (ops ! k)
            \<and> unmatch_test add ops mu lam i)
         = unmatch_test add ops mu lam (length ops - k - 1)"
proof
  assume "\<exists>i<length ops. sim_of (ops ! (length ops - i - 1)) = sim_of (ops ! k)
            \<and> unmatch_test add ops mu lam i"
  then obtain i where i: "i < length ops"
    and e: "sim_of (ops ! (length ops - i - 1)) = sim_of (ops ! k)"
    and t: "unmatch_test add ops mu lam i" by blast
  from i have "length ops - i - 1 < length ops" by simp
  with e have "length ops - i - 1 = k" using distinct_sim_index [OF d _ k] by blast
  with i have "i = length ops - k - 1" by simp
  with t show "unmatch_test add ops mu lam (length ops - k - 1)" by simp
next
  assume t: "unmatch_test add ops mu lam (length ops - k - 1)"
  have "length ops - k - 1 < length ops" "length ops - (length ops - k - 1) - 1 = k"
    using k by simp_all
  with t show "\<exists>i<length ops. sim_of (ops ! (length ops - i - 1)) = sim_of (ops ! k)
            \<and> unmatch_test add ops mu lam i" by metis
qed

text \<open>
  C1 (as amended).  The sweep from the tail accumulates the match mass (component 1) and
  is bounded by \<open>lambda_\<close>; the sweep from the head accumulates the unmatch mass
  (component 2) and is bounded by \<open>mu\<close>.  For a list of distinct probability tuples and
  every addition: while the cumulative unmatch mass of the head sweep has stayed within
  \<open>mu\<close> up to position \<open>k\<close>, the tuple at position \<open>k\<close> is labelled \<open>match\<close> exactly when
  the cumulative sum with its own unmatch mass is still at most \<open>mu\<close>; while the cumulative
  match mass of the tail sweep has stayed within \<open>lambda_\<close> up to position \<open>k\<close> (counted
  from the end), the tuple is labelled \<open>unmatch\<close> exactly when the cumulative sum with its
  own match mass is still at most \<open>lambda_\<close> and the tuple is not labelled \<open>match\<close>.
\<close>

theorem put_labels_sweeps:
  assumes "distinct (map sim_of ops)" and "k < length ops"
  shows "(head_within add ops mu k \<longrightarrow>
            (put_labels add ops mu lam (sim_of (ops ! k)) = Some Match)
              = (head_sum add ops (Suc k) \<le> mu))
       \<and> (tail_within add ops lam (length ops - k - 1) \<longrightarrow>
            (put_labels add ops mu lam (sim_of (ops ! k)) = Some Unmatch)
              = (tail_sum add ops (length ops - k) \<le> lam
                 \<and> put_labels add ops mu lam (sim_of (ops ! k)) \<noteq> Some Match))"
proof (intro conjI impI)
  assume w: "head_within add ops mu k"
  show "(put_labels add ops mu lam (sim_of (ops ! k)) = Some Match)
          = (head_sum add ops (Suc k) \<le> mu)"
    unfolding put_labels_Match_iff distinct_match_ex [OF assms]
    by (rule match_test_within [OF assms(2) w])
next
  assume w: "tail_within add ops lam (length ops - k - 1)"
  have i: "length ops - k - 1 < length ops" and s: "Suc (length ops - k - 1) = length ops - k"
    using assms(2) by simp_all
  have "(put_labels add ops mu lam (sim_of (ops ! k)) = Some Unmatch)
          = (unmatch_test add ops mu lam (length ops - k - 1)
             \<and> \<not> match_test add ops mu lam k)"
    unfolding put_labels_Unmatch_iff distinct_match_ex [OF assms] distinct_unmatch_ex [OF assms] ..
  also have "\<dots> = (tail_sum add ops (length ops - k) \<le> lam
               \<and> put_labels add ops mu lam (sim_of (ops ! k)) \<noteq> Some Match)"
    unfolding unmatch_test_within [OF i w] s put_labels_Match_iff distinct_match_ex [OF assms] ..
  finally show "(put_labels add ops mu lam (sim_of (ops ! k)) = Some Unmatch)
          = (tail_sum add ops (length ops - k) \<le> lam
             \<and> put_labels add ops mu lam (sim_of (ops ! k)) \<noteq> Some Match)" .
qed

lemmas sum_defs = head_within_def tail_within_def head_sum_def tail_sum_def
  match_prob_def unmatch_prob_def sim_of_def

theorem put_labels_sweeps_witness:
  "distinct (map sim_of scenario) \<and> 0 < length scenario \<and> Suc 0 < length scenario
   \<and> head_within float_add scenario (1 / 2) 0
   \<and> head_sum float_add scenario (Suc 0) \<le> 1 / 2
   \<and> put_labels float_add scenario (1 / 2) (1 / 2) (sim_of (scenario ! 0)) = Some Match
   \<and> head_within float_add scenario (1 / 2) (Suc 0)
   \<and> \<not> head_sum float_add scenario (Suc (Suc 0)) \<le> 1 / 2
   \<and> tail_within float_add scenario (1 / 2) (length scenario - Suc 0 - 1)
   \<and> tail_sum float_add scenario (length scenario - Suc 0) \<le> 1 / 2
   \<and> put_labels float_add scenario (1 / 2) (1 / 2) (sim_of (scenario ! Suc 0)) \<noteq> Some Match
   \<and> put_labels float_add scenario (1 / 2) (1 / 2) (sim_of (scenario ! Suc 0)) = Some Unmatch"
proof -
  have h: "distinct (map sim_of scenario)" "Suc 0 < length scenario"
    and h0: "0 < length scenario"
    by (simp_all add: scenario_def sim_of_def)
  have s0: "head_within float_add scenario (1 / 2) 0"
    "head_sum float_add scenario (Suc 0) \<le> 1 / 2"
    by (simp_all add: scenario_def sum_defs float_add_0)
  have s: "head_within float_add scenario (1 / 2) (Suc 0)"
    "\<not> head_sum float_add scenario (Suc (Suc 0)) \<le> 1 / 2"
    "tail_within float_add scenario (1 / 2) (length scenario - Suc 0 - 1)"
    "tail_sum float_add scenario (length scenario - Suc 0) \<le> 1 / 2"
    by (simp_all add: scenario_def sum_defs float_add_0)
  from put_labels_sweeps [OF h(1) h0, of float_add "1 / 2" "1 / 2"] s0
  have m: "put_labels float_add scenario (1 / 2) (1 / 2) (sim_of (scenario ! 0)) = Some Match"
    by blast
  from put_labels_sweeps [OF h, of float_add "1 / 2" "1 / 2"] s
  have "put_labels float_add scenario (1 / 2) (1 / 2) (sim_of (scenario ! Suc 0)) \<noteq> Some Match
    \<and> put_labels float_add scenario (1 / 2) (1 / 2) (sim_of (scenario ! Suc 0)) = Some Unmatch"
    by blast
  with h h0 s0 m s show ?thesis by blast
qed

text \<open>
  C1 as stated fails on the scenario of the specification with both bounds 1/2: the first
  tuple is labelled \<open>match\<close> although its match mass alone exceeds \<open>mu\<close>, and the last is
  labelled \<open>unmatch\<close> although its unmatch mass alone exceeds \<open>lambda_\<close>.
\<close>

theorem put_labels_sweeps_counterexample:
  "put_labels float_add scenario (1 / 2) (1 / 2) (sim_of (scenario ! 0)) = Some Match
   \<and> \<not> foldl float_add 0 (map match_prob (take (Suc 0) scenario)) \<le> 1 / 2
   \<and> put_labels float_add scenario (1 / 2) (1 / 2) (sim_of (scenario ! Suc 0)) = Some Unmatch
   \<and> \<not> foldl float_add 0 (map unmatch_prob (take (Suc 0) (rev scenario))) \<le> 1 / 2"
  by (simp add: scenario_def eval_defs float_add_0)

subsection \<open>Both bounds 0\<close>

lemma nonneg_massesD:
  "nonneg_masses ops \<Longrightarrow> t \<in> set ops \<Longrightarrow> 0 \<le> match_prob t \<and> 0 \<le> unmatch_prob t"
  by (simp add: nonneg_masses_def list_all_iff)

lemma zero_exactD:
  "zero_exact add ops \<Longrightarrow> t \<in> set ops \<Longrightarrow>
   add 0 (match_prob t) = match_prob t \<and> add 0 (unmatch_prob t) = unmatch_prob t"
  by (simp add: zero_exact_def list_all_iff)

lemma clamp_add_zero:
  "add 0 p = p \<Longrightarrow> 0 \<le> p \<Longrightarrow> clamp_add add 0 0 p = 0"
  by (cases "p = 0") (auto simp: clamp_add_def)

lemma head_tracker_zero:
  assumes nn: "nonneg_masses ops" and ze: "zero_exact add ops"
  shows "k \<le> length ops \<Longrightarrow> fst (put_labels_loop add ops 0 lam k) = 0"
proof (induction k)
  case 0
  show ?case by simp
next
  case (Suc k)
  then have k: "ops ! k \<in> set ops" and IH: "fst (put_labels_loop add ops 0 lam k) = 0"
    by simp_all
  show ?case
    unfolding loop_fst_step IH
    using zero_exactD [OF ze k] nonneg_massesD [OF nn k] by (simp add: clamp_add_zero)
qed

lemma tail_tracker_zero:
  assumes nn: "nonneg_masses ops" and ze: "zero_exact add ops"
  shows "k \<le> length ops \<Longrightarrow> fst (snd (put_labels_loop add ops mu 0 k)) = 0"
proof (induction k)
  case 0
  show ?case by simp
next
  case (Suc k)
  then have k: "ops ! (length ops - k - 1) \<in> set ops"
    and IH: "fst (snd (put_labels_loop add ops mu 0 k)) = 0"
    by simp_all
  show ?case
    unfolding loop_snd_step IH
    using zero_exactD [OF ze k] nonneg_massesD [OF nn k] by (simp add: clamp_add_zero)
qed

lemma match_test_zero:
  assumes nn: "nonneg_masses ops" and ze: "zero_exact add ops" and k: "k < length ops"
  shows "match_test add ops 0 lam k = (unmatch_prob (ops ! k) = 0)"
proof -
  have t: "ops ! k \<in> set ops" using k by simp
  have "fst (put_labels_loop add ops 0 lam k) = 0"
    using head_tracker_zero [OF nn ze] k by simp
  then show ?thesis
    unfolding match_test_def using zero_exactD [OF ze t] nonneg_massesD [OF nn t] by auto
qed

lemma unmatch_test_zero:
  assumes nn: "nonneg_masses ops" and ze: "zero_exact add ops" and k: "k < length ops"
  shows "unmatch_test add ops mu 0 (length ops - k - 1) = (match_prob (ops ! k) = 0)"
proof -
  have t: "ops ! k \<in> set ops" and i: "length ops - k - 1 \<le> length ops"
    and e: "length ops - (length ops - k - 1) - 1 = k"
    using k by simp_all
  have "fst (snd (put_labels_loop add ops mu 0 (length ops - k - 1))) = 0"
    using tail_tracker_zero [OF nn ze i] .
  then show ?thesis
    unfolding unmatch_test_def e using zero_exactD [OF ze t] nonneg_massesD [OF nn t] by auto
qed

lemma ex_head_conv:
  "(\<exists>i<length ops. sim_of (ops ! i) = s \<and> P (ops ! i)) = (\<exists>t\<in>set ops. sim_of t = s \<and> P t)"
  by (metis in_set_conv_nth)

lemma ex_tail_conv:
  "(\<exists>i<length ops. sim_of (ops ! (length ops - i - 1)) = s \<and> Q i)
     = (\<exists>k<length ops. sim_of (ops ! k) = s \<and> Q (length ops - k - 1))"
proof
  assume "\<exists>i<length ops. sim_of (ops ! (length ops - i - 1)) = s \<and> Q i"
  then obtain i where i: "i < length ops" "sim_of (ops ! (length ops - i - 1)) = s" "Q i"
    by blast
  then have "length ops - i - 1 < length ops" "length ops - (length ops - i - 1) - 1 = i"
    by simp_all
  with i show "\<exists>k<length ops. sim_of (ops ! k) = s \<and> Q (length ops - k - 1)" by metis
next
  assume "\<exists>k<length ops. sim_of (ops ! k) = s \<and> Q (length ops - k - 1)"
  then obtain k where k: "k < length ops" "sim_of (ops ! k) = s" "Q (length ops - k - 1)"
    by blast
  then have "length ops - k - 1 < length ops" "length ops - (length ops - k - 1) - 1 = k"
    by simp_all
  with k show "\<exists>i<length ops. sim_of (ops ! (length ops - i - 1)) = s \<and> Q i" by metis
qed

lemma put_labels_zero_eq:
  assumes nn: "nonneg_masses ops" and ze: "zero_exact add ops"
  shows "put_labels add ops 0 0 s =
     (if \<exists>t\<in>set ops. sim_of t = s \<and> unmatch_prob t = 0 then Some Match
      else if \<exists>t\<in>set ops. sim_of t = s \<and> match_prob t = 0 then Some Unmatch
      else if s \<in> sim_of ` set ops then Some Possible_match
      else None)"
proof -
  have A: "(\<exists>i<length ops. sim_of (ops ! i) = s \<and> match_test add ops 0 0 i)
        = (\<exists>t\<in>set ops. sim_of t = s \<and> unmatch_prob t = 0)"
    using match_test_zero [OF nn ze]
    by (metis (no_types, lifting) in_set_conv_nth)
  have "(\<exists>i<length ops. sim_of (ops ! (length ops - i - 1)) = s \<and> unmatch_test add ops 0 0 i)
        = (\<exists>k<length ops. sim_of (ops ! k) = s \<and> unmatch_test add ops 0 0 (length ops - k - 1))"
    by (rule ex_tail_conv)
  also have "\<dots> = (\<exists>t\<in>set ops. sim_of t = s \<and> match_prob t = 0)"
    using unmatch_test_zero [OF nn ze]
    by (metis (no_types, lifting) in_set_conv_nth)
  finally have B: "(\<exists>i<length ops. sim_of (ops ! (length ops - i - 1)) = s
          \<and> unmatch_test add ops 0 0 i)
        = (\<exists>t\<in>set ops. sim_of t = s \<and> match_prob t = 0)" .
  have C: "(\<exists>i<length ops. sim_of (ops ! i) = s) = (s \<in> sim_of ` set ops)"
    by (metis (no_types, lifting) image_iff in_set_conv_nth)
  show ?thesis unfolding put_labels_eq A B C ..
qed

text \<open>
  C3 (as amended).  With \<open>mu = 0\<close> and \<open>lambda_ = 0\<close>, masses that are not negative, and
  an addition that returns a mass unchanged when it is added to 0 (the float addition does,
  and so does the exact one), the keys of the returned mapping are exactly the probability tuples of the list (so the
  mapping is empty only for the empty list).  A tuple is labelled \<open>match\<close> when an entry of
  it has unmatch mass 0, otherwise \<open>unmatch\<close> when an entry of it has match mass 0,
  otherwise \<open>possible match\<close>.  So when every entry has both masses positive, every lookup
  with the default \<open>possible match\<close> gives \<open>possible match\<close>.
\<close>

theorem put_labels_zero_bounds:
  assumes "nonneg_masses ops" and "zero_exact add ops"
  shows "dom (put_labels add ops 0 0) = sim_of ` set ops
    \<and> (\<forall>s. put_labels add ops 0 0 s =
         (if \<exists>t\<in>set ops. sim_of t = s \<and> unmatch_prob t = 0 then Some Match
          else if \<exists>t\<in>set ops. sim_of t = s \<and> match_prob t = 0 then Some Unmatch
          else if s \<in> sim_of ` set ops then Some Possible_match
          else None))
    \<and> (list_all (\<lambda>t. 0 < match_prob t \<and> 0 < unmatch_prob t) ops
         \<longrightarrow> (\<forall>s. dict_get (put_labels add ops 0 0) s Possible_match = Possible_match))"
proof (intro conjI allI impI)
  show "dom (put_labels add ops 0 0) = sim_of ` set ops"
  proof (rule set_eqI)
    fix s
    have "(put_labels add ops 0 0 s \<noteq> None) = (s \<in> sim_of ` set ops)"
      unfolding put_labels_zero_eq [OF assms] by auto
    then show "(s \<in> dom (put_labels add ops 0 0)) = (s \<in> sim_of ` set ops)"
      by (simp add: dom_def)
  qed
next
  fix s
  show "put_labels add ops 0 0 s =
         (if \<exists>t\<in>set ops. sim_of t = s \<and> unmatch_prob t = 0 then Some Match
          else if \<exists>t\<in>set ops. sim_of t = s \<and> match_prob t = 0 then Some Unmatch
          else if s \<in> sim_of ` set ops then Some Possible_match
          else None)"
    by (rule put_labels_zero_eq [OF assms])
next
  fix s
  assume pos: "list_all (\<lambda>t. 0 < match_prob t \<and> 0 < unmatch_prob t) ops"
  then have "\<not> (\<exists>t\<in>set ops. sim_of t = s \<and> unmatch_prob t = 0)"
    and "\<not> (\<exists>t\<in>set ops. sim_of t = s \<and> match_prob t = 0)"
    by (auto simp: list_all_iff)
  then have "put_labels add ops 0 0 s = Some Possible_match \<or> put_labels add ops 0 0 s = None"
    unfolding put_labels_zero_eq [OF assms] by simp
  then show "dict_get (put_labels add ops 0 0) s Possible_match = Possible_match"
    by (auto simp: dict_get_def)
qed

theorem put_labels_zero_bounds_witness:
  "nonneg_masses mixed \<and> zero_exact float_add mixed
   \<and> list_all (\<lambda>t. 0 < match_prob t \<and> 0 < unmatch_prob t) mixed
   \<and> dom (put_labels float_add mixed 0 0) = {[''high'', ''low'']}
   \<and> put_labels float_add mixed 0 0 [''high'', ''low''] = Some Possible_match
   \<and> dict_get (put_labels float_add mixed 0 0) [''low'', ''low''] Possible_match
        = Possible_match"
proof -
  have h: "nonneg_masses mixed"
    "list_all (\<lambda>t. 0 < match_prob t \<and> 0 < unmatch_prob t) mixed"
    by (simp_all add: mixed_def nonneg_masses_def match_prob_def unmatch_prob_def)
  have s: "sim_of ` set mixed = {[''high'', ''low'']}"
    by (simp add: mixed_def sim_of_def)
  have v: "\<not> (\<exists>t\<in>set mixed. sim_of t = [''high'', ''low''] \<and> unmatch_prob t = 0)"
    "\<not> (\<exists>t\<in>set mixed. sim_of t = [''high'', ''low''] \<and> match_prob t = 0)"
    by (simp_all add: mixed_def match_prob_def unmatch_prob_def)
  have ze: "zero_exact float_add mixed"
    by (simp add: mixed_def zero_exact_def match_prob_def unmatch_prob_def float_add_0)
  note t = put_labels_zero_bounds [OF h(1) ze]
  from t have 1: "dom (put_labels float_add mixed 0 0) = {[''high'', ''low'']}"
    unfolding s by (rule conjunct1)
  from t have "put_labels float_add mixed 0 0 [''high'', ''low''] =
         (if \<exists>t\<in>set mixed. sim_of t = [''high'', ''low''] \<and> unmatch_prob t = 0 then Some Match
          else if \<exists>t\<in>set mixed. sim_of t = [''high'', ''low''] \<and> match_prob t = 0
               then Some Unmatch
          else if [''high'', ''low''] \<in> sim_of ` set mixed then Some Possible_match
          else None)" by blast
  then have 2: "put_labels float_add mixed 0 0 [''high'', ''low''] = Some Possible_match"
    using v s by simp
  from t h(2)
  have 3: "dict_get (put_labels float_add mixed 0 0) [''low'', ''low''] Possible_match
             = Possible_match"
    by blast
  from h ze 1 2 3 show ?thesis by blast
qed

text \<open>
  C3 as stated fails on the scenario of the specification: with both bounds 0 the mapping
  is not empty, the first tuple is labelled \<open>match\<close> and the second \<open>unmatch\<close>, so a pair
  with the first tuple is written with \<open>match\<close>.
\<close>

theorem put_labels_zero_bounds_counterexample:
  "scenario \<noteq> []
   \<and> put_labels float_add scenario 0 0 [''high'', ''high''] = Some Match
   \<and> put_labels float_add scenario 0 0 [''low'', ''high''] = Some Unmatch
   \<and> dict_get (put_labels float_add scenario 0 0) [''high'', ''high''] Possible_match = Match"
  by (simp add: scenario_def eval_defs float_add_0)

subsection \<open>The leading runs and the bounds\<close>








lemma finite_labelled: "finite {s. put_labels add ops mu lam s = Some l}"
proof -
  have "{s. put_labels add ops mu lam s = Some l} \<subseteq> sim_of ` set ops"
  proof
    fix s assume "s \<in> {s. put_labels add ops mu lam s = Some l}"
    then have "put_labels add ops mu lam s \<noteq> None" by simp
    then obtain i where "i < length ops"
      and "sim_of (ops ! i) = s \<or> sim_of (ops ! (length ops - i - 1)) = s"
      unfolding put_labels_None_iff by blast
    moreover from \<open>i < length ops\<close> have "length ops - i - 1 < length ops" by simp
    ultimately show "s \<in> sim_of ` set ops"
      by (metis imageI nth_mem)
  qed
  then show ?thesis by (rule finite_subset) simp
qed













subsection \<open>With the exact sum\<close>

text \<open>
  With the exact sum in place of the rounded one, the room left under the bound,
  \<open>bound - acc\<close>, grows with the bound, whatever masses are added; every test that holds
  under a bound then holds under a higher one, and the number of tuples labelled \<open>match\<close>
  never falls when \<open>mu\<close> is raised.  The failure above comes from rounding alone.
\<close>

lemma clamp_add_slack_mono:
  "b1 - a1 \<le> b2 - a2 \<Longrightarrow> b1 - clamp_add (+) b1 a1 p \<le> b2 - clamp_add (+) b2 a2 p"
  by (auto simp: clamp_add_def)

lemma foldl_clamp_slack_mono:
  "b1 - a1 \<le> b2 - a2 \<Longrightarrow>
   b1 - foldl (clamp_add (+) b1) a1 ps \<le> b2 - foldl (clamp_add (+) b2) a2 ps"
proof (induction ps arbitrary: a1 a2)
  case Nil
  then show ?case by simp
next
  case (Cons p ps)
  show ?case using Cons.IH [OF clamp_add_slack_mono [OF Cons.prems]] by simp
qed

lemma exact_match_test_mono:
  assumes "mu1 \<le> mu2" and "i < length ops" and "match_test (+) ops mu1 lam1 i"
  shows "match_test (+) ops mu2 lam2 i"
proof -
  define ps where "ps = map unmatch_prob (take i ops)"
  have "mu1 - foldl (clamp_add (+) mu1) 0 ps \<le> mu2 - foldl (clamp_add (+) mu2) 0 ps"
    by (rule foldl_clamp_slack_mono) (simp add: assms(1))
  moreover have "foldl (clamp_add (+) mu1) 0 ps + unmatch_prob (ops ! i) \<le> mu1"
    using assms(2,3) by (simp add: match_test_def loop_u_foldl ps_def)
  ultimately have "foldl (clamp_add (+) mu2) 0 ps + unmatch_prob (ops ! i) \<le> mu2"
    by linarith
  then show ?thesis
    using assms(2) by (simp add: match_test_def loop_u_foldl ps_def)
qed

lemma exact_match_count_mono:
  assumes "mu1 \<le> mu2"
  shows "count_label (put_labels (+) ops mu1 lam) Match
           \<le> count_label (put_labels (+) ops mu2 lam) Match"
proof -
  have "{s. put_labels (+) ops mu1 lam s = Some Match}
          \<subseteq> {s. put_labels (+) ops mu2 lam s = Some Match}"
    unfolding put_labels_Match_iff using exact_match_test_mono [OF assms] by blast
  then show ?thesis
    unfolding count_label_def by (rule card_mono [OF finite_labelled])
qed

section \<open>Claims about gen_prob_tuple and compute_probabilities\<close>

lemma gen_prob_tuple_loop_eq:
  "gen_prob_tuple_loop jw cat z f i tpl =
     (if i < length z \<and> length f < length z then Inl IndexError
      else Inr (tpl @ map (\<lambda>k. cat (jw (z ! k) (f ! k))) [i..<length z]))"
proof (induction jw cat z f i tpl rule: gen_prob_tuple_loop.induct)
  case (1 jw cat z f i tpl)
  show ?case
  proof (cases "i < length z")
    case False
    then show ?thesis by (simp add: gen_prob_tuple_loop.simps [of jw cat z f i tpl])
  next
    case iz: True
    show ?thesis
    proof (cases "i < length f")
      case False
      with iz show ?thesis by (simp add: gen_prob_tuple_loop.simps [of jw cat z f i tpl])
    next
      case True
      have up: "[i..<length z] = i # [Suc i..<length z]"
        using iz by (simp add: upt_conv_Cons)
      have "gen_prob_tuple_loop jw cat z f i tpl =
            gen_prob_tuple_loop jw cat z f (Suc i) (tpl @ [cat (jw (z ! i) (f ! i))])"
        using iz True by (simp add: gen_prob_tuple_loop.simps [of jw cat z f i tpl])
      also have "\<dots> = (if Suc i < length z \<and> length f < length z then Inl IndexError
          else Inr ((tpl @ [cat (jw (z ! i) (f ! i))])
                      @ map (\<lambda>k. cat (jw (z ! k) (f ! k))) [Suc i..<length z]))"
        by (rule "1.IH" [OF iz True])
      also have "\<dots> = (if i < length z \<and> length f < length z then Inl IndexError
          else Inr (tpl @ map (\<lambda>k. cat (jw (z ! k) (f ! k))) [i..<length z]))"
        using iz True unfolding up by auto
      finally show ?thesis .
    qed
  qed
qed

lemma map_index_zip:
  "length z \<le> length f \<Longrightarrow>
   map (\<lambda>k. g (z ! k) (f ! k)) [0..<length z] = map (\<lambda>(a, b). g a b) (zip z f)"
  by (rule nth_equalityI) simp_all

lemma gen_prob_tuple_rows:
  assumes "zagat z_i = Some z" and "fodors f_i = Some f"
  shows "gen_prob_tuple jw cat z_i f_i zagat fodors =
     (if length f < length z then Inl IndexError
      else Inr (map (\<lambda>(a, b). cat (jw a b)) (zip z f)))"
proof (cases "length f < length z")
  case True
  then have "z \<noteq> []" by auto
  with True assms show ?thesis by (simp add: gen_prob_tuple_def gen_prob_tuple_loop_eq)
next
  case False
  then have "length z \<le> length f" by simp
  from map_index_zip [OF this, of "\<lambda>a b. cat (jw a b)"] False assms
  show ?thesis by (simp add: gen_prob_tuple_def gen_prob_tuple_loop_eq)
qed

text \<open>
  C9 (as amended).  For two records that are found, gen_prob_tuple raises IndexError
  exactly when the second record has fewer fields than the first.  When the second has at
  least as many fields, also when it has more, it returns a probability tuple with one
  category per field of the first record, computed against the leading fields of the second.
\<close>

theorem gen_prob_tuple_field_counts:
  assumes "zagat z_i = Some z" and "fodors f_i = Some f"
  shows "(length f < length z \<longrightarrow> gen_prob_tuple jw cat z_i f_i zagat fodors = Inl IndexError)
    \<and> (length z \<le> length f \<longrightarrow>
         gen_prob_tuple jw cat z_i f_i zagat fodors
           = Inr (map (\<lambda>(a, b). cat (jw a b)) (zip z f))
         \<and> (\<forall>tpl. gen_prob_tuple jw cat z_i f_i zagat fodors = Inr tpl
               \<longrightarrow> length tpl = length z))"
  using assms
  by (simp add: gen_prob_tuple_rows [where zagat = zagat and fodors = fodors and z = z and f = f])

theorem gen_prob_tuple_field_counts_witness:
  "wide_frame 1 = Some [''cafe'', ''chicago''] \<and> narrow_frame 1 = Some [''cafe'']
   \<and> length [''cafe''] < length [''cafe'', ''chicago'']
   \<and> gen_prob_tuple sample_similarity sample_category 1 1 wide_frame narrow_frame
        = Inl IndexError
   \<and> gen_prob_tuple sample_similarity sample_category 1 1 narrow_frame wide_frame
        = Inr [''high'']"
proof -
  have w: "wide_frame 1 = Some [''cafe'', ''chicago'']"
    and n: "narrow_frame 1 = Some [''cafe'']"
    by (simp_all add: wide_frame_def narrow_frame_def)
  have 1: "gen_prob_tuple sample_similarity sample_category 1 1 wide_frame narrow_frame
        = Inl IndexError"
    using gen_prob_tuple_field_counts [where zagat = wide_frame and fodors = narrow_frame
        and z_i = 1 and f_i = 1 and jw = sample_similarity and cat = sample_category, OF w n]
    by simp
  have 2: "gen_prob_tuple sample_similarity sample_category 1 1 narrow_frame wide_frame
        = Inr [''high'']"
    using gen_prob_tuple_field_counts [where zagat = narrow_frame and fodors = wide_frame
        and z_i = 1 and f_i = 1 and jw = sample_similarity and cat = sample_category, OF n w]
    by (simp add: sample_similarity_def sample_category_def)
  from w n 1 2 show ?thesis by simp
qed

text \<open>
  C9 as stated fails: the first record has one field and the second two, and a
  probability tuple is returned.
\<close>

theorem gen_prob_tuple_field_counts_counterexample:
  "narrow_frame 1 = Some [''cafe''] \<and> wide_frame 1 = Some [''cafe'', ''chicago'']
   \<and> length [''cafe''] \<noteq> length [''cafe'', ''chicago'']
   \<and> gen_prob_tuple sample_similarity sample_category 1 1 narrow_frame wide_frame
        = Inr [''high'']"
  by (simp add: gen_prob_tuple_def gen_prob_tuple_loop.simps narrow_frame_def wide_frame_def
      sample_similarity_def sample_category_def)

text \<open>
  C2 (as amended).  For an empty list of training pairs the loop body never runs: no
  division is done, no exception is raised, and the empty dictionary is returned.
\<close>

theorem compute_probabilities_empty:
  "compute_probabilities jw cat [] zagat fodors = Inr Map.empty"
  by (simp add: compute_probabilities_def)

text \<open>C2 as stated fails: the call returns a dictionary, not an error.\<close>

theorem compute_probabilities_empty_counterexample:
  "compute_probabilities sample_similarity sample_category [] wide_frame wide_frame
     = Inr Map.empty
   \<and> \<not> isl (compute_probabilities sample_similarity sample_category [] wide_frame wide_frame)"
  by (simp add: compute_probabilities_def)








section \<open>Claims about ordered_probabilities\<close>

lemma precedes_in_set: "precedes xs a b \<Longrightarrow> a \<in> set xs \<and> b \<in> set xs"
  by (induction xs) auto

lemma precedes_total:
  "distinct xs \<Longrightarrow> a \<in> set xs \<Longrightarrow> b \<in> set xs \<Longrightarrow> a \<noteq> b \<Longrightarrow>
   precedes xs a b \<noteq> precedes xs b a"
  by (induction xs) (auto dest: precedes_in_set)

lemma rank_key_sim: "rank_key t = rank_key t' \<Longrightarrow> sim_of t = sim_of t'"
  by (simp add: rank_key_def split: if_splits)

lemma rank_key_inj: "inj_on rank_key (set (prob_tuples sim_tpls mp up))"
proof (rule inj_onI)
  fix t t'
  assume t: "t \<in> set (prob_tuples sim_tpls mp up)" and t': "t' \<in> set (prob_tuples sim_tpls mp up)"
    and k: "rank_key t = rank_key t'"
  have e: "sim_of t = sim_of t'" by (rule rank_key_sim [OF k])
  from t obtain s where 1: "t = (s, dict_get mp s 0, dict_get up s 0)"
    by (auto simp: prob_tuples_def)
  from t' obtain s' where 2: "t' = (s', dict_get mp s' 0, dict_get up s' 0)"
    by (auto simp: prob_tuples_def)
  from e 1 2 show "t = t'" by (simp add: sim_of_def)
qed

lemma sort_key_inj_unique:
  fixes f :: "'a \<Rightarrow> 'b::linorder"
  assumes "mset xs = mset ys" and "inj_on f (set xs)" and "distinct xs"
  shows "sort_key f xs = sort_key f ys"
proof -
  have sy: "set ys = set xs"
    using mset_eq_setD [OF assms(1)] by simp
  have dy: "distinct ys"
    using mset_eq_imp_distinct_iff [OF assms(1)] assms(3) by simp
  have ix: "inj_on f (set ys)" using assms(2) sy by simp
  have 1: "sorted (map f (sort_key f xs))" by (rule sorted_sort_key)
  have 2: "sorted (map f (sort_key f ys))" by (rule sorted_sort_key)
  have 3: "distinct (map f (sort_key f xs))"
    unfolding distinct_map using assms(2,3) by simp
  have 4: "distinct (map f (sort_key f ys))"
    unfolding distinct_map using ix dy by simp
  have 5: "set (map f (sort_key f xs)) = set (map f (sort_key f ys))"
    using sy by simp
  have e: "map f (sort_key f xs) = map f (sort_key f ys)"
    by (rule sorted_distinct_set_unique [OF 1 3 2 4 5])
  have "inj_on f (set (sort_key f xs) \<union> set (sort_key f ys))"
    using assms(2) sy by simp
  from iffD1 [OF inj_on_map_eq_map [OF this] e] show ?thesis .
qed

lemma sim_of_prob_tuples: "map sim_of (prob_tuples sim_tpls mp up) = sim_tpls"
  by (simp add: prob_tuples_def sim_of_def comp_def)


lemma key_listing_mset:
  assumes "key_listing l1 mp up" and "key_listing l2 mp up"
  shows "mset l1 = mset l2"
proof -
  have "distinct l1" "distinct l2" "set l1 = set l2"
    using assms by (simp_all add: key_listing_def)
  then show ?thesis by (simp add: set_eq_iff_mset_eq_distinct)
qed

lemma ordered_probabilities_perm:
  assumes "\<forall>xs. mset (sort_fn xs) = mset xs" and "key_listing sim_tpls mp up"
  shows "set (ordered_probabilities sort_fn sim_tpls mp up) = set (prob_tuples sim_tpls mp up)"
    and "distinct (map sim_of (ordered_probabilities sort_fn sim_tpls mp up))"
    and "set (map sim_of (ordered_probabilities sort_fn sim_tpls mp up)) = dom mp \<union> dom up"
proof -
  define r where "r = ordered_probabilities sort_fn sim_tpls mp up"
  have m: "mset r = mset (prob_tuples sim_tpls mp up)"
    using assms(1) by (simp add: r_def ordered_probabilities_def)
  have "image_mset sim_of (mset r) = image_mset sim_of (mset (prob_tuples sim_tpls mp up))"
    by (simp only: m)
  then have "mset (map sim_of r) = mset (map sim_of (prob_tuples sim_tpls mp up))"
    by (simp only: mset_map)
  then have ms: "mset (map sim_of r) = mset sim_tpls"
    by (simp only: sim_of_prob_tuples)
  have "distinct sim_tpls" using assms(2) by (simp add: key_listing_def)
  then have d: "distinct (map sim_of r)"
    using mset_eq_imp_distinct_iff [OF ms] by simp
  have s: "set (map sim_of r) = dom mp \<union> dom up"
    using mset_eq_setD [OF ms] assms(2) by (simp add: key_listing_def)
  have e: "set r = set (prob_tuples sim_tpls mp up)"
    by (rule mset_eq_setD [OF m])
  show "set (ordered_probabilities sort_fn sim_tpls mp up) = set (prob_tuples sim_tpls mp up)"
    and "distinct (map sim_of (ordered_probabilities sort_fn sim_tpls mp up))"
    and "set (map sim_of (ordered_probabilities sort_fn sim_tpls mp up)) = dom mp \<union> dom up"
    using d s e unfolding r_def by blast+
qed

lemma sort_prob_tuples_perm: "\<forall>xs. mset (sort_prob_tuples xs) = mset xs"
  by (simp add: sort_prob_tuples_def)

lemma scenario_listings:
  "key_listing [[''high'', ''high''], [''low'', ''high'']]
     [[''high'', ''high''] \<mapsto> 1] [[''low'', ''high''] \<mapsto> 1]"
  "key_listing [[''low'', ''high''], [''high'', ''high'']]
     [[''high'', ''high''] \<mapsto> 1] [[''low'', ''high''] \<mapsto> 1]"
  by (auto simp: key_listing_def)



text \<open>
  C7.  With the sort modelled from the specification, the order of the returned list is a
  total order on its probability tuples: of two different tuples of the union exactly one
  stands before the other.  The returned list does not depend on the order in which the
  union of the keys is listed, so every call on the same two distributions returns the
  same list.
\<close>

theorem ordered_probabilities_total_order:
  assumes "key_listing l1 mp up" and "key_listing l2 mp up"
  shows "ordered_probabilities sort_prob_tuples l1 mp up
           = ordered_probabilities sort_prob_tuples l2 mp up
    \<and> (\<forall>s1 s2. s1 \<in> dom mp \<union> dom up \<and> s2 \<in> dom mp \<union> dom up \<and> s1 \<noteq> s2 \<longrightarrow>
          precedes (map sim_of (ordered_probabilities sort_prob_tuples l1 mp up)) s1 s2
          \<noteq> precedes (map sim_of (ordered_probabilities sort_prob_tuples l1 mp up)) s2 s1)"
proof (intro conjI allI impI)
  have "image_mset (\<lambda>sim. (sim, dict_get mp sim 0, dict_get up sim 0)) (mset l1)
        = image_mset (\<lambda>sim. (sim, dict_get mp sim 0, dict_get up sim 0)) (mset l2)"
    by (simp only: key_listing_mset [OF assms])
  then have m: "mset (prob_tuples l1 mp up) = mset (prob_tuples l2 mp up)"
    unfolding prob_tuples_def by (simp only: mset_map)
  have "distinct (map sim_of (prob_tuples l1 mp up))"
    using assms(1) by (simp add: sim_of_prob_tuples key_listing_def)
  then have d: "distinct (prob_tuples l1 mp up)"
    by (simp add: distinct_map)
  show "ordered_probabilities sort_prob_tuples l1 mp up
           = ordered_probabilities sort_prob_tuples l2 mp up"
    unfolding ordered_probabilities_def sort_prob_tuples_def
    by (rule sort_key_inj_unique [OF m rank_key_inj d])
next
  fix s1 s2
  assume a: "s1 \<in> dom mp \<union> dom up \<and> s2 \<in> dom mp \<union> dom up \<and> s1 \<noteq> s2"
  note p = ordered_probabilities_perm [OF sort_prob_tuples_perm assms(1)]
  show "precedes (map sim_of (ordered_probabilities sort_prob_tuples l1 mp up)) s1 s2
          \<noteq> precedes (map sim_of (ordered_probabilities sort_prob_tuples l1 mp up)) s2 s1"
    using a p(3) by (intro precedes_total [OF p(2)]) simp_all
qed

lemma ranked_scenario:
  "ordered_probabilities sort_prob_tuples [[''low'', ''high''], [''high'', ''high'']]
     [[''high'', ''high''] \<mapsto> 1] [[''low'', ''high''] \<mapsto> 1] = scenario"
  by (simp add: ordered_probabilities_def sort_prob_tuples_def prob_tuples_def dict_get_def
      rank_key_def match_prob_def unmatch_prob_def sim_of_def scenario_def less_eq_prod_def)

theorem ordered_probabilities_total_order_witness:
  "key_listing [[''high'', ''high''], [''low'', ''high'']]
     [[''high'', ''high''] \<mapsto> 1] [[''low'', ''high''] \<mapsto> 1]
   \<and> key_listing [[''low'', ''high''], [''high'', ''high'']]
     [[''high'', ''high''] \<mapsto> 1] [[''low'', ''high''] \<mapsto> 1]
   \<and> ordered_probabilities sort_prob_tuples [[''high'', ''high''], [''low'', ''high'']]
         [[''high'', ''high''] \<mapsto> 1] [[''low'', ''high''] \<mapsto> 1]
       = ordered_probabilities sort_prob_tuples [[''low'', ''high''], [''high'', ''high'']]
         [[''high'', ''high''] \<mapsto> 1] [[''low'', ''high''] \<mapsto> 1]
   \<and> ordered_probabilities sort_prob_tuples [[''high'', ''high''], [''low'', ''high'']]
         [[''high'', ''high''] \<mapsto> 1] [[''low'', ''high''] \<mapsto> 1] = scenario
   \<and> [''high'', ''high''] \<in> dom [[''high'', ''high''] \<mapsto> (1::real)]
                                \<union> dom [[''low'', ''high''] \<mapsto> (1::real)]
   \<and> [''low'', ''high''] \<in> dom [[''high'', ''high''] \<mapsto> (1::real)]
                                \<union> dom [[''low'', ''high''] \<mapsto> (1::real)]
   \<and> [''high'', ''high''] \<noteq> [''low'', ''high'']
   \<and> precedes (map sim_of scenario) [''high'', ''high''] [''low'', ''high'']
       \<noteq> precedes (map sim_of scenario) [''low'', ''high''] [''high'', ''high'']"
proof -
  note t = ordered_probabilities_total_order [OF scenario_listings(1) scenario_listings(2)]
  from t have e: "ordered_probabilities sort_prob_tuples [[''high'', ''high''], [''low'', ''high'']]
         [[''high'', ''high''] \<mapsto> 1] [[''low'', ''high''] \<mapsto> 1]
       = ordered_probabilities sort_prob_tuples [[''low'', ''high''], [''high'', ''high'']]
         [[''high'', ''high''] \<mapsto> 1] [[''low'', ''high''] \<mapsto> 1]"
    by (rule conjunct1)
  have s: "ordered_probabilities sort_prob_tuples [[''high'', ''high''], [''low'', ''high'']]
         [[''high'', ''high''] \<mapsto> 1] [[''low'', ''high''] \<mapsto> 1] = scenario"
    unfolding e by (rule ranked_scenario)
  have d: "[''high'', ''high''] \<in> dom [[''high'', ''high''] \<mapsto> (1::real)]
                                \<union> dom [[''low'', ''high''] \<mapsto> (1::real)]
     \<and> [''low'', ''high''] \<in> dom [[''high'', ''high''] \<mapsto> (1::real)]
                                \<union> dom [[''low'', ''high''] \<mapsto> (1::real)]
     \<and> [''high'', ''high''] \<noteq> [''low'', ''high'']"
    by simp
  from t d have "precedes (map sim_of (ordered_probabilities sort_prob_tuples
         [[''high'', ''high''], [''low'', ''high'']]
         [[''high'', ''high''] \<mapsto> 1] [[''low'', ''high''] \<mapsto> 1])) [''high'', ''high''] [''low'', ''high'']
       \<noteq> precedes (map sim_of (ordered_probabilities sort_prob_tuples
         [[''high'', ''high''], [''low'', ''high'']]
         [[''high'', ''high''] \<mapsto> 1] [[''low'', ''high''] \<mapsto> 1])) [''low'', ''high''] [''high'', ''high'']"
    by blast
  then have p: "precedes (map sim_of scenario) [''high'', ''high''] [''low'', ''high'']
       \<noteq> precedes (map sim_of scenario) [''low'', ''high''] [''high'', ''high'']"
    unfolding s .
  from scenario_listings e s d p show ?thesis by blast
qed

end
